theory Spec2Isabelle
  imports Main
begin

section \<open>Inventory service (server.js): data model\<close>

text \<open>
  The server keeps two module-level variables, the array \<open>inventory\<close> and the counter
  \<open>nextId\<close>, and a directory of photo files whose path is the command line option
  \<open>cache\<close>. The three together are the state every handler reads and writes.

  Modelling decisions, each visible in the definitions below:
  \<^item> A JavaScript string is a \<open>string\<close>; each \<open>char\<close> stands for one code unit in the
    range 0..255. A form field is either absent (\<open>undefined\<close>, here \<open>None\<close>) or a string,
    and so are the fields \<open>inventory_name\<close> and \<open>description\<close> of an item.
  \<^item> A JavaScript number that holds an id is an \<open>int\<close>. Doubles are exact on integers
    below \<open>2^53\<close>, and a double that rounds a larger integer is itself at least \<open>2^53\<close>, so
    \<open>===\<close> between a stored id below \<open>2^53\<close> and the result of \<open>parseInt\<close> agrees with
    equality of the mathematical integers.
  \<^item> The cache directory is a map from file name to file content. \<open>path.join(cache, f)\<close>
    is the key \<open>f\<close>.
  \<^item> \<open>Date.now()\<close> and \<open>Math.random()\<close> are choices of the environment: the uploaded file
    part carries the two numbers that the \<open>filename\<close> callback will read, and the
    extension \<open>path.extname(file.originalname)\<close> as already computed. A request carries at
    most one file part, in the field \<open>photo\<close>.
  \<^item> \<open>const item = findItem(..)\<close> is a reference to an element of the array; an assignment
    to a field of \<open>item\<close> is an update of the array at the position of that element. The
    array never holds one object twice, since every element is a fresh object literal.
  \<^item> A response is its status code and its body; \<open>res.json(x)\<close> without \<open>res.status\<close>
    has status 200.
\<close>

record item =
  item_id :: int
  inventory_name :: string
  description :: string
  photo :: "string option"
  photo_url :: "string option"

record upload_file =
  mimetype :: string
  ext :: string
  content :: string
  now :: nat
  rnd :: nat

record store =
  inventory :: "item list"
  nextId :: int
  cache :: "string \<rightharpoonup> string"

datatype body =
    ItemJson item
  | ItemsJson "item list"
  | ErrorJson string
  | MessageJson string
  | FileBody string

record response =
  status :: nat
  rbody :: body

definition init_store :: store where
  "init_store = \<lparr>inventory = [], nextId = 1, cache = Map.empty\<rparr>"


section \<open>JavaScript string primitives used by the handlers\<close>

text \<open>White space and line terminators of ECMAScript among the code units below 256:
  TAB, LF, VT, FF, CR, SP and NBSP. \<open>String.prototype.trim\<close> and \<open>parseInt\<close> strip the
  same set.\<close>

definition is_ws :: "char \<Rightarrow> bool" where
  "is_ws c = ((of_char c :: nat) \<in> {9, 10, 11, 12, 13, 32, 160})"

definition trim :: "string \<Rightarrow> string" where
  "trim s = rev (dropWhile is_ws (rev (dropWhile is_ws s)))"

definition startsWith :: "string \<Rightarrow> string \<Rightarrow> bool" where
  "startsWith s p = (take (length p) s = p)"

definition digit_char :: "nat \<Rightarrow> char" where
  "digit_char d = ''0123456789'' ! d"

text \<open>Decimal rendering of a number in a template literal.\<close>

function show_nat :: "nat \<Rightarrow> string" where
  "show_nat n = (if n < 10 then [digit_char n] else show_nat (n div 10) @ [digit_char (n mod 10)])"
  by pat_completeness auto
termination
  by (relation "measure (\<lambda>n. n)") auto

declare show_nat.simps [simp del]

definition show_int :: "int \<Rightarrow> string" where
  "show_int i = (if i < 0 then CHR ''-'' # show_nat (nat (- i)) else show_nat (nat i))"

text \<open>\<open>parseInt(string)\<close> with no radix argument: skip leading white space, read a sign,
  switch to radix 16 after \<open>0x\<close> or \<open>0X\<close>, read the longest run of digits of the radix and
  ignore whatever follows. An empty run is \<open>NaN\<close>, here \<open>None\<close>.\<close>

definition digit_val :: "char \<Rightarrow> nat option" where
  "digit_val c =
     (let n = (of_char c :: nat) in
      if 48 \<le> n \<and> n \<le> 57 then Some (n - 48)
      else if 97 \<le> n \<and> n \<le> 122 then Some (n - 87)
      else if 65 \<le> n \<and> n \<le> 90 then Some (n - 55)
      else None)"

definition is_digit :: "nat \<Rightarrow> char \<Rightarrow> bool" where
  "is_digit R c = (case digit_val c of None \<Rightarrow> False | Some d \<Rightarrow> d < R)"

definition digits_value :: "nat \<Rightarrow> string \<Rightarrow> nat" where
  "digits_value R Z = foldl (\<lambda>a c. a * R + (case digit_val c of None \<Rightarrow> 0 | Some d \<Rightarrow> d)) 0 Z"

definition parseInt :: "string \<Rightarrow> int option" where
  "parseInt string =
     (let S = dropWhile is_ws string;
          sign = (if S \<noteq> [] \<and> hd S = CHR ''-'' then - 1 else 1);
          S1 = (if S \<noteq> [] \<and> (hd S = CHR ''+'' \<or> hd S = CHR ''-'') then tl S else S);
          hex = (take 2 S1 = ''0x'' \<or> take 2 S1 = ''0X'');
          R = (if hex then 16 else 10);
          S2 = (if hex then drop 2 S1 else S1);
          Z = takeWhile (is_digit R) S2
      in if Z = [] then None else Some (sign * int (digits_value R Z)))"


section \<open>The file system calls and the upload middleware\<close>

definition existsSync :: "store \<Rightarrow> string \<Rightarrow> bool" where
  "existsSync s f = (cache s f \<noteq> None)"

definition unlinkSync :: "store \<Rightarrow> string \<Rightarrow> store" where
  "unlinkSync s f = s\<lparr>cache := (cache s)(f := None)\<rparr>"

text \<open>\<open>if (fs.existsSync(p)) fs.unlinkSync(p)\<close>, as the photo and delete handlers write it.\<close>

definition unlink_if_exists :: "store \<Rightarrow> string \<Rightarrow> store" where
  "unlink_if_exists s f = (if existsSync s f then unlinkSync s f else s)"

definition fileFilter :: "upload_file \<Rightarrow> bool" where
  "fileFilter file = startsWith (mimetype file) ''image/''"

definition filename :: "upload_file \<Rightarrow> string" where
  "filename file = show_nat (now file) @ ''-'' @ show_nat (rnd file) @ ext file"

text \<open>\<open>upload.single('photo')\<close> runs before the handler. A request without a file part
  passes through. A part the filter accepts is written to the cache directory under the
  generated name and becomes \<open>req.file\<close>; a part the filter turns down with
  \<open>cb(null, false)\<close> is skipped, \<open>req.file\<close> stays undefined and the request goes on to
  the handler. The result is the store after the middleware and \<open>req.file.filename\<close>.\<close>

definition upload_single :: "store \<Rightarrow> upload_file option \<Rightarrow> store \<times> string option" where
  "upload_single s part =
     (case part of
        None \<Rightarrow> (s, None)
      | Some file \<Rightarrow>
          if fileFilter file
          then (s\<lparr>cache := (cache s)(filename file \<mapsto> content file)\<rparr>, Some (filename file))
          else (s, None))"


section \<open>Lookup\<close>

text \<open>\<open>Array.prototype.findIndex\<close>: the first position whose element satisfies the
  predicate, or \<open>-1\<close>.\<close>

fun findIndex :: "('a \<Rightarrow> bool) \<Rightarrow> 'a list \<Rightarrow> int" where
  "findIndex P [] = - 1"
| "findIndex P (x # xs) =
     (if P x then 0 else (let r = findIndex P xs in if r = - 1 then - 1 else r + 1))"

text \<open>\<open>i.id === parseInt(id)\<close>: \<open>NaN\<close> is equal to nothing.\<close>

definition id_matches :: "string \<Rightarrow> item \<Rightarrow> bool" where
  "id_matches idstr i = (Some (item_id i) = parseInt idstr)"

definition findItem :: "store \<Rightarrow> string \<Rightarrow> item option" where
  "findItem s idstr = List.find (id_matches idstr) (inventory s)"

definition findItemIndex :: "store \<Rightarrow> string \<Rightarrow> int" where
  "findItemIndex s idstr = findIndex (id_matches idstr) (inventory s)"


section \<open>The route handlers\<close>

definition json :: "nat \<Rightarrow> body \<Rightarrow> response" where
  "json code b = \<lparr>status = code, rbody = b\<rparr>"

definition photo_path :: "string \<Rightarrow> string" where
  "photo_path idtext = ''/inventory/'' @ idtext @ ''/photo''"

text \<open>\<open>app.post('/register', upload.single('photo'), ..)\<close>. The name test
  \<open>!name || !name.trim()\<close> is true for an absent name, for the empty string and for a
  string of white space only. \<open>req.body.description || ''\<close> is the description, or the
  empty string when it is absent.\<close>

definition post_register ::
    "store \<Rightarrow> string option \<Rightarrow> string option \<Rightarrow> upload_file option \<Rightarrow> store \<times> response" where
  "post_register s0 name desc part =
     (let (s, req_file) = upload_single s0 part in
      case name of
        None \<Rightarrow> (s, json 400 (ErrorJson ''Inventory name is required''))
      | Some n \<Rightarrow>
          if n = [] \<or> trim n = []
          then (s, json 400 (ErrorJson ''Inventory name is required''))
          else
            let it = \<lparr>item_id = nextId s,
                      inventory_name = trim n,
                      description = (case desc of None \<Rightarrow> [] | Some d \<Rightarrow> d),
                      photo = req_file,
                      photo_url = (case req_file of
                                     None \<Rightarrow> None
                                   | Some _ \<Rightarrow> Some (photo_path (show_int (nextId s))))\<rparr>
            in (s\<lparr>inventory := inventory s @ [it], nextId := nextId s + 1\<rparr>,
                json 201 (ItemJson it)))"

definition get_inventory :: "store \<Rightarrow> store \<times> response" where
  "get_inventory s = (s, json 200 (ItemsJson (inventory s)))"

definition get_inventory_id :: "store \<Rightarrow> string \<Rightarrow> store \<times> response" where
  "get_inventory_id s idstr =
     (case findItem s idstr of
        Some it \<Rightarrow> (s, json 200 (ItemJson it))
      | None \<Rightarrow> (s, json 404 (ErrorJson ''Item not found'')))"

text \<open>\<open>app.put('/inventory/:id', ..)\<close>: a field is assigned when it is not
  \<open>undefined\<close>.\<close>

definition put_inventory_id ::
    "store \<Rightarrow> string \<Rightarrow> string option \<Rightarrow> string option \<Rightarrow> store \<times> response" where
  "put_inventory_id s idstr name desc =
     (case findItem s idstr of
        None \<Rightarrow> (s, json 404 (ErrorJson ''Item not found''))
      | Some it \<Rightarrow>
          let it1 = (case name of None \<Rightarrow> it | Some n \<Rightarrow> it\<lparr>inventory_name := n\<rparr>);
              it2 = (case desc of None \<Rightarrow> it1 | Some d \<Rightarrow> it1\<lparr>description := d\<rparr>)
          in (s\<lparr>inventory := (inventory s)[nat (findItemIndex s idstr) := it2]\<rparr>,
              json 200 (ItemJson it2)))"

text \<open>\<open>app.get('/inventory/:id/photo', ..)\<close>: \<open>!item.photo\<close> holds for \<open>null\<close> and for
  the empty string.\<close>

definition get_inventory_id_photo :: "store \<Rightarrow> string \<Rightarrow> store \<times> response" where
  "get_inventory_id_photo s idstr =
     (case findItem s idstr of
        None \<Rightarrow> (s, json 404 (ErrorJson ''Photo not found''))
      | Some it \<Rightarrow>
          (case photo it of
             None \<Rightarrow> (s, json 404 (ErrorJson ''Photo not found''))
           | Some f \<Rightarrow>
               if f = [] then (s, json 404 (ErrorJson ''Photo not found''))
               else
                 (case cache s f of
                    Some bytes \<Rightarrow> (s, json 200 (FileBody bytes))
                  | None \<Rightarrow> (s, json 404 (ErrorJson ''Photo file not found'')))))"

text \<open>\<open>app.put('/inventory/:id/photo', upload.single('photo'), ..)\<close>: the new file is on
  disk before the handler starts; the handler removes the old file and then swaps the
  reference. The new \<open>photo_url\<close> is built from the text of the path parameter.\<close>

definition put_inventory_id_photo ::
    "store \<Rightarrow> string \<Rightarrow> upload_file option \<Rightarrow> store \<times> response" where
  "put_inventory_id_photo s0 idstr part =
     (let (s, req_file) = upload_single s0 part in
      case findItem s idstr of
        None \<Rightarrow> (s, json 404 (ErrorJson ''Item not found''))
      | Some it \<Rightarrow>
          (case req_file of
             None \<Rightarrow> (s, json 400 (ErrorJson ''Photo file is required''))
           | Some fname \<Rightarrow>
               let s1 = (case photo it of
                           None \<Rightarrow> s
                         | Some old \<Rightarrow> if old = [] then s else unlink_if_exists s old);
                   it' = it\<lparr>photo := Some fname, photo_url := Some (photo_path idstr)\<rparr>
               in (s1\<lparr>inventory := (inventory s1)[nat (findItemIndex s idstr) := it']\<rparr>,
                   json 200 (ItemJson it'))))"

text \<open>\<open>app.delete('/inventory/:id', ..)\<close>: \<open>inventory.splice(index, 1)\<close> removes the
  element at \<open>index\<close>.\<close>

definition splice1 :: "nat \<Rightarrow> 'a list \<Rightarrow> 'a list" where
  "splice1 i xs = take i xs @ drop (Suc i) xs"

definition delete_inventory_id :: "store \<Rightarrow> string \<Rightarrow> store \<times> response" where
  "delete_inventory_id s idstr =
     (let index = findItemIndex s idstr in
      if index = - 1 then (s, json 404 (ErrorJson ''Item not found''))
      else
        let it = inventory s ! nat index;
            s1 = (case photo it of
                    None \<Rightarrow> s
                  | Some f \<Rightarrow> if f = [] then s else unlink_if_exists s f)
        in (s1\<lparr>inventory := splice1 (nat index) (inventory s1)\<rparr>,
            json 200 (MessageJson ''Item deleted successfully'')))"

text \<open>\<open>app.post('/search', ..)\<close>: \<open>req.body.id\<close> reaches \<open>parseInt\<close> through \<open>ToString\<close>,
  which turns \<open>undefined\<close> into the text \<open>undefined\<close>. \<open>result\<close> is a copy of the item made
  by the spread; in the template a \<open>null\<close> \<open>photo_url\<close> prints as \<open>null\<close>.\<close>

definition photo_note :: "item \<Rightarrow> string" where
  "photo_note result =
     [CHR 0x0A] @ ''Photo: '' @ (case photo_url result of None \<Rightarrow> ''null'' | Some u \<Rightarrow> u)"

definition post_search :: "store \<Rightarrow> string option \<Rightarrow> string option \<Rightarrow> store \<times> response" where
  "post_search s body_id has_photo =
     (case findItem s (case body_id of None \<Rightarrow> ''undefined'' | Some v \<Rightarrow> v) of
        None \<Rightarrow> (s, json 404 (ErrorJson ''Item not found''))
      | Some it \<Rightarrow>
          let result = it;
              result' = (if has_photo = Some ''on'' \<and> photo it \<noteq> None \<and> photo it \<noteq> Some []
                         then result\<lparr>description := description result @ photo_note result\<rparr>
                         else result)
          in (s, json 200 (ItemJson result')))"


section \<open>Requests and runs of the server\<close>

datatype request =
    Register "string option" "string option" "upload_file option"
  | ListAll
  | GetItem string
  | Update string "string option" "string option"
  | GetPhoto string
  | PutPhoto string "upload_file option"
  | Delete string
  | Search "string option" "string option"

fun handle :: "store \<Rightarrow> request \<Rightarrow> store \<times> response" where
  "handle s (Register name desc part) = post_register s name desc part"
| "handle s ListAll = get_inventory s"
| "handle s (GetItem idstr) = get_inventory_id s idstr"
| "handle s (Update idstr name desc) = put_inventory_id s idstr name desc"
| "handle s (GetPhoto idstr) = get_inventory_id_photo s idstr"
| "handle s (PutPhoto idstr part) = put_inventory_id_photo s idstr part"
| "handle s (Delete idstr) = delete_inventory_id s idstr"
| "handle s (Search body_id has_photo) = post_search s body_id has_photo"

text \<open>Requests are served one after the other, each as one step made of the upload
  middleware (where the route has it) and the handler; \<open>run\<close> returns the final store
  and the responses in order.\<close>

fun run :: "store \<Rightarrow> request list \<Rightarrow> store \<times> response list" where
  "run s [] = (s, [])"
| "run s (r # rs) =
     (let (s1, resp) = handle s r; (s2, resps) = run s1 rs in (s2, resp # resps))"


section \<open>Observations on runs, and example inputs\<close>

text \<open>Only the register handler answers with status 201; the ids it hands out, in the
  order of the responses.\<close>

fun created_ids :: "response list \<Rightarrow> int list" where
  "created_ids [] = []"
| "created_ids (r # rs) =
     (if status r = 201
      then (case rbody r of ItemJson it \<Rightarrow> item_id it # created_ids rs | _ \<Rightarrow> created_ids rs)
      else created_ids rs)"

text \<open>The data model's invariant on a store: one item per id, and every id in use lies
  below the counter.\<close>

definition ids_below :: "store \<Rightarrow> bool" where
  "ids_below s = list_all (\<lambda>i. item_id i < nextId s) (inventory s)"

definition store_ok :: "store \<Rightarrow> bool" where
  "store_ok s = (distinct (map item_id (inventory s)) \<and> ids_below s)"

definition png_part :: upload_file where
  "png_part = \<lparr>mimetype = ''image/png'', ext = ''.png'', content = ''PNG1'', now = 17, rnd = 42\<rparr>"

definition jpg_part :: upload_file where
  "jpg_part = \<lparr>mimetype = ''image/jpeg'', ext = ''.jpg'', content = ''JPG2'', now = 18, rnd = 7\<rparr>"

definition text_part :: upload_file where
  "text_part = \<lparr>mimetype = ''text/plain'', ext = ''.txt'', content = ''hello'', now = 19, rnd = 3\<rparr>"


definition registrations_and_delete :: "request list" where
  "registrations_and_delete =
     [Register (Some ''a'') None None, Register (Some ''b'') None None, Delete ''1'',
      Register (Some ''c'') None None]"


definition drill_item :: item where
  "drill_item = \<lparr>item_id = 1, inventory_name = ''Drill'', description = [],
                  photo = Some ''17-42.png'', photo_url = Some ''/inventory/1/photo''\<rparr>"

definition plain_item :: item where
  "plain_item = \<lparr>item_id = 1, inventory_name = ''Drill'', description = [],
                  photo = None, photo_url = None\<rparr>"

text \<open>Item 1 with its photo on disk, as a registration with \<open>png_part\<close> leaves it; the
  same with the file gone from the directory; and item 1 registered without a photo.\<close>

definition drill_store :: store where
  "drill_store = \<lparr>inventory = [drill_item], nextId = 2, cache = [''17-42.png'' \<mapsto> ''PNG1'']\<rparr>"

definition dangling_store :: store where
  "dangling_store = \<lparr>inventory = [drill_item], nextId = 2, cache = Map.empty\<rparr>"

definition plain_store :: store where
  "plain_store = \<lparr>inventory = [plain_item], nextId = 2, cache = Map.empty\<rparr>"


text \<open>The characters \<open>show_nat\<close> produces.\<close>

definition is_dec :: "char \<Rightarrow> bool" where
  "is_dec c = (c \<in> set ''0123456789'')"

definition two_items_store :: store where
  "two_items_store = \<lparr>inventory = [plain_item, plain_item\<lparr>item_id := 12\<rparr>], nextId = 13,
                       cache = Map.empty\<rparr>"


section \<open>Facts about lookup\<close>

lemma findIndex_ge: "- 1 \<le> findIndex P xs"
  by (induction xs) (auto simp: Let_def)

lemma findIndex_none: "findIndex P xs = - 1 \<longleftrightarrow> (\<forall>x \<in> set xs. \<not> P x)"
proof (induction xs)
  case Nil
  then show ?case by simp
next
  case (Cons x xs)
  have "- 1 \<le> findIndex P xs" by (rule findIndex_ge)
  with Cons show ?case by (auto simp: Let_def)
qed

lemma findIndex_some:
  "findIndex P xs \<noteq> - 1 \<Longrightarrow>
     0 \<le> findIndex P xs \<and> nat (findIndex P xs) < length xs \<and> P (xs ! nat (findIndex P xs))"
proof (induction xs)
  case Nil
  then show ?case by simp
next
  case (Cons x xs)
  show ?case
  proof (cases "P x")
    case True
    then show ?thesis by simp
  next
    case False
    with Cons.prems have ne: "findIndex P xs \<noteq> - 1" by (auto simp: Let_def)
    from Cons.IH [OF ne] have ih: "0 \<le> findIndex P xs" "nat (findIndex P xs) < length xs"
      "P (xs ! nat (findIndex P xs))" by auto
    have "nat (findIndex P xs + 1) = Suc (nat (findIndex P xs))" using ih(1) by simp
    with False ne ih show ?thesis by (simp add: Let_def)
  qed
qed

lemma findIndex_first: "j < nat (findIndex P xs) \<Longrightarrow> \<not> P (xs ! j)"
proof (induction xs arbitrary: j)
  case Nil
  then show ?case by simp
next
  case (Cons x xs)
  show ?case
  proof (cases "P x")
    case True
    with Cons.prems show ?thesis by simp
  next
    case False
    show ?thesis
    proof (cases j)
      case 0
      with False show ?thesis by simp
    next
      case (Suc k)
      from Cons.prems False have ne: "findIndex P xs \<noteq> - 1"
        by (auto simp: Let_def split: if_splits)
      from findIndex_some [OF ne] have "0 \<le> findIndex P xs" by simp
      then have "nat (findIndex P xs + 1) = Suc (nat (findIndex P xs))" by simp
      with Cons.prems False ne Suc have "k < nat (findIndex P xs)" by (simp add: Let_def)
      from Cons.IH [OF this] Suc show ?thesis by simp
    qed
  qed
qed

lemma find_findIndex:
  "List.find P xs = (if findIndex P xs = - 1 then None else Some (xs ! nat (findIndex P xs)))"
proof (induction xs)
  case Nil
  then show ?case by simp
next
  case (Cons x xs)
  show ?case
  proof (cases "P x")
    case True
    then show ?thesis by simp
  next
    case False
    show ?thesis
    proof (cases "findIndex P xs = - 1")
      case True
      with False Cons show ?thesis by (simp add: Let_def)
    next
      case ne: False
      from findIndex_some [OF ne] have "0 \<le> findIndex P xs" by simp
      then have "nat (findIndex P xs + 1) = Suc (nat (findIndex P xs))" by simp
      moreover have "findIndex P xs + 1 \<noteq> - 1" using \<open>0 \<le> findIndex P xs\<close> by simp
      ultimately show ?thesis using False ne Cons by (simp add: Let_def)
    qed
  qed
qed


section \<open>Example inputs, evaluated\<close>

lemma filename_png_part: "filename png_part = ''17-42.png''"
  by (simp add: filename_def png_part_def show_nat.simps digit_char_def)

lemma filename_jpg_part: "filename jpg_part = ''18-7.jpg''"
  by (simp add: filename_def jpg_part_def show_nat.simps digit_char_def)

lemma fileFilter_png_part: "fileFilter png_part"
  by (simp add: fileFilter_def startsWith_def png_part_def)

lemma fileFilter_jpg_part: "fileFilter jpg_part"
  by (simp add: fileFilter_def startsWith_def jpg_part_def)

lemma fileFilter_text_part: "\<not> fileFilter text_part"
  by (simp add: fileFilter_def startsWith_def text_part_def)

lemma trim_blank: "trim ''  '' = []"
  by (simp add: trim_def is_ws_def)

lemma trim_Drill: "trim ''Drill'' = ''Drill''"
  by (simp add: trim_def is_ws_def)

lemma trim_Saw: "trim '' Saw '' = ''Saw''"
  by (simp add: trim_def is_ws_def)

lemma content_png_part: "content png_part = ''PNG1''"
  by (simp add: png_part_def)

lemma content_jpg_part: "content jpg_part = ''JPG2''"
  by (simp add: jpg_part_def)

lemma show_int_1: "show_int 1 = ''1''"
  by (simp add: show_int_def show_nat.simps digit_char_def)

section \<open>Registration\<close>

lemma trim_Nil: "trim [] = []"
  by (simp add: trim_def)

text \<open>C1, as the spec states it, fails: the upload middleware has written an image
  payload to the cache directory before the handler looks at the name.\<close>

theorem register_blank_name_stores_photo:
  "status (snd (post_register init_store (Some ''  '') None (Some png_part))) = 400
   \<and> cache init_store ''17-42.png'' = None
   \<and> cache (fst (post_register init_store (Some ''  '') None (Some png_part))) ''17-42.png''
       = Some ''PNG1''"
  by (simp add: post_register_def upload_single_def fileFilter_png_part filename_png_part
      content_png_part trim_blank json_def init_store_def)

text \<open>C1, amended: a registration whose name is absent or empty after trimming is
  answered with 400 and the error body, the collection and the id counter are as before
  the call, and the cache directory is as the upload middleware left it: unchanged when
  the request has no photo or a photo that is not an image, and holding the new file when
  the photo is an image.\<close>

theorem register_invalid_name:
  assumes "case name of None \<Rightarrow> True | Some n \<Rightarrow> trim n = []"
  shows "snd (post_register s name desc part) = json 400 (ErrorJson ''Inventory name is required'')
     \<and> inventory (fst (post_register s name desc part)) = inventory s
     \<and> nextId (fst (post_register s name desc part)) = nextId s
     \<and> cache (fst (post_register s name desc part)) =
         (case part of
            None \<Rightarrow> cache s
          | Some file \<Rightarrow>
              if startsWith (mimetype file) ''image/''
              then (cache s)(filename file \<mapsto> content file)
              else cache s)"
  using assms
  by (auto simp: post_register_def upload_single_def fileFilter_def split: option.splits)

theorem register_invalid_name_witness:
  "snd (post_register init_store (Some ''  '') (Some ''x'') (Some png_part))
       = json 400 (ErrorJson ''Inventory name is required'')
   \<and> inventory (fst (post_register init_store (Some ''  '') (Some ''x'') (Some png_part))) = []
   \<and> nextId (fst (post_register init_store (Some ''  '') (Some ''x'') (Some png_part))) = 1
   \<and> cache (fst (post_register init_store (Some ''  '') (Some ''x'') (Some png_part)))
       = [''17-42.png'' \<mapsto> ''PNG1'']"
proof -
  have h: "case Some ''  '' of None \<Rightarrow> True | Some n \<Rightarrow> trim n = []"
    by (simp add: trim_blank)
  have img: "startsWith (mimetype png_part) ''image/''"
    using fileFilter_png_part by (simp add: fileFilter_def)
  show ?thesis
    using register_invalid_name [OF h, of init_store "Some ''x''" "Some png_part"] img
    by (simp add: filename_png_part content_png_part init_store_def)
qed

text \<open>C2, as the spec states it, fails: a photo that is not an image does not make the
  request fail. With a valid name the item is created, without a photo.\<close>

theorem register_text_photo_creates_item:
  "\<not> startsWith (mimetype text_part) ''image/''
   \<and> snd (post_register init_store (Some ''Drill'') None (Some text_part))
       = json 201 (ItemJson \<lparr>item_id = 1, inventory_name = ''Drill'', description = [],
                             photo = None, photo_url = None\<rparr>)
   \<and> inventory (fst (post_register init_store (Some ''Drill'') None (Some text_part)))
       = [\<lparr>item_id = 1, inventory_name = ''Drill'', description = [],
            photo = None, photo_url = None\<rparr>]"
  using fileFilter_text_part
  by (simp add: post_register_def upload_single_def fileFilter_def trim_Drill init_store_def
      Let_def)

text \<open>C2, amended: a photo whose declared media type does not begin with \<open>image/\<close> is
  dropped by the upload filter before anything is written. The cache directory is
  unchanged, and the request is served exactly as the same request without a photo: no
  ValidationError arises from the photo, and an item created by the request carries no
  photo reference.\<close>

theorem register_non_image_photo:
  assumes "\<not> startsWith (mimetype file) ''image/''"
  shows "post_register s name desc (Some file) = post_register s name desc None
     \<and> cache (fst (post_register s name desc (Some file))) = cache s
     \<and> (case rbody (snd (post_register s name desc (Some file))) of
          ItemJson it \<Rightarrow> photo it = None \<and> photo_url it = None
        | _ \<Rightarrow> True)"
  using assms
  by (auto simp: post_register_def upload_single_def fileFilter_def json_def Let_def
      split: option.splits)

theorem register_non_image_photo_witness:
  "post_register init_store (Some ''Drill'') None (Some text_part)
     = post_register init_store (Some ''Drill'') None None
   \<and> cache (fst (post_register init_store (Some ''Drill'') None (Some text_part))) = Map.empty
   \<and> rbody (snd (post_register init_store (Some ''Drill'') None (Some text_part)))
       = ItemJson \<lparr>item_id = 1, inventory_name = ''Drill'', description = [],
                    photo = None, photo_url = None\<rparr>"
proof -
  have h: "\<not> startsWith (mimetype text_part) ''image/''"
    using fileFilter_text_part by (simp add: fileFilter_def)
  have r: "post_register init_store (Some ''Drill'') None None
      = (\<lparr>inventory = [\<lparr>item_id = 1, inventory_name = ''Drill'', description = [],
            photo = None, photo_url = None\<rparr>], nextId = 2, cache = Map.empty\<rparr>,
         json 201 (ItemJson \<lparr>item_id = 1, inventory_name = ''Drill'', description = [],
                    photo = None, photo_url = None\<rparr>))"
    by (simp add: post_register_def upload_single_def trim_Drill init_store_def Let_def)
  show ?thesis
    using register_non_image_photo [OF h, of init_store "Some ''Drill''" None]
    by (simp add: r json_def)
qed


section \<open>What each handler does to the collection and the counter\<close>

lemma upload_single_inventory [simp]: "inventory (fst (upload_single s part)) = inventory s"
  by (simp add: upload_single_def split: option.splits)

lemma upload_single_nextId [simp]: "nextId (fst (upload_single s part)) = nextId s"
  by (simp add: upload_single_def split: option.splits)

lemma unlink_if_exists_inventory [simp]: "inventory (unlink_if_exists s f) = inventory s"
  by (simp add: unlink_if_exists_def unlinkSync_def)

lemma unlink_if_exists_nextId [simp]: "nextId (unlink_if_exists s f) = nextId s"
  by (simp add: unlink_if_exists_def unlinkSync_def)

lemma unlink_if_exists_cache [simp]: "cache (unlink_if_exists s f) = (cache s)(f := None)"
  by (auto simp: unlink_if_exists_def unlinkSync_def existsSync_def)

lemma created_ids_Cons: "created_ids (r # rs) = created_ids [r] @ created_ids rs"
  by (simp split: body.splits)

text \<open>A request either leaves the counter alone and creates nothing, or it is a
  successful registration: it hands out the current counter value and advances the
  counter by one.\<close>

lemma post_register_step:
  "(nextId (fst (post_register s name desc part)) = nextId s
      \<and> created_ids [snd (post_register s name desc part)] = [])
   \<or> (nextId (fst (post_register s name desc part)) = nextId s + 1
      \<and> created_ids [snd (post_register s name desc part)] = [nextId s])"
proof -
  obtain s1 req_file where u: "upload_single s part = (s1, req_file)"
    by (cases "upload_single s part")
  have "nextId s1 = nextId s"
    using upload_single_nextId [of s part] u by simp
  with u show ?thesis
    by (auto simp: post_register_def json_def Let_def split: option.splits)
qed

lemma handle_step:
  "(nextId (fst (handle s r)) = nextId s \<and> created_ids [snd (handle s r)] = [])
   \<or> (nextId (fst (handle s r)) = nextId s + 1 \<and> created_ids [snd (handle s r)] = [nextId s])"
proof (cases r)
  case (Register name desc part)
  then show ?thesis using post_register_step [of s name desc part] by simp
next
  case ListAll
  then show ?thesis by (simp add: get_inventory_def json_def)
next
  case (GetItem idstr)
  then show ?thesis by (simp add: get_inventory_id_def json_def split: option.splits)
next
  case (Update idstr name desc)
  then show ?thesis
    by (simp add: put_inventory_id_def json_def Let_def split: option.splits)
next
  case (GetPhoto idstr)
  then show ?thesis
    by (simp add: get_inventory_id_photo_def json_def split: option.splits)
next
  case (PutPhoto idstr part)
  obtain s1 req_file where u: "upload_single s part = (s1, req_file)"
    by (cases "upload_single s part")
  have "nextId s1 = nextId s"
    using upload_single_nextId [of s part] u by simp
  with u PutPhoto show ?thesis
    by (auto simp: put_inventory_id_photo_def json_def Let_def split: option.splits)
next
  case (Delete idstr)
  then show ?thesis
    by (simp add: delete_inventory_id_def json_def Let_def split: option.splits)
next
  case (Search body_id has_photo)
  then show ?thesis by (simp add: post_search_def json_def Let_def split: option.splits)
qed

lemma run_created_ids:
  "sorted_wrt (<) (created_ids (snd (run s reqs)))
   \<and> list_all (\<lambda>i. nextId s \<le> i) (created_ids (snd (run s reqs)))"
proof (induction reqs arbitrary: s)
  case Nil
  show ?case by simp
next
  case (Cons r reqs)
  obtain s1 resp where h: "handle s r = (s1, resp)" by (cases "handle s r")
  obtain s2 resps where t: "run s1 reqs = (s2, resps)" by (cases "run s1 reqs")
  from Cons.IH [of s1] t
  have ih: "sorted_wrt (<) (created_ids resps)" "list_all (\<lambda>i. nextId s1 \<le> i) (created_ids resps)"
    by simp_all
  have split_ids: "created_ids (snd (run s (r # reqs))) = created_ids [resp] @ created_ids resps"
    using h t created_ids_Cons [of resp resps] by simp
  from handle_step [of s r] h
  consider (same) "nextId s1 = nextId s" "created_ids [resp] = []"
    | (new) "nextId s1 = nextId s + 1" "created_ids [resp] = [nextId s]"
    by auto
  then show ?case
  proof cases
    case same
    with ih split_ids show ?thesis by simp
  next
    case new
    from ih(2) new(1) have "list_all (\<lambda>i. nextId s < i) (created_ids resps)"
      by (fastforce simp: list_all_iff)
    with ih new split_ids show ?thesis
      by (auto simp: list_all_iff)
  qed
qed

text \<open>C3: in every run of the server, from any store, the ids returned by the
  successful registrations strictly increase in call order; hence no id is returned
  twice, whatever requests (deletions among them) lie in between. None of them is below
  the counter value at the start of the run, so none repeats an id handed out before.\<close>

theorem created_ids_strictly_increase:
  "sorted_wrt (<) (created_ids (snd (run s reqs)))
   \<and> distinct (created_ids (snd (run s reqs)))
   \<and> list_all (\<lambda>i. nextId s \<le> i) (created_ids (snd (run s reqs)))"
proof -
  have "sorted_wrt (<) (created_ids (snd (run s reqs)))"
    using run_created_ids [of s reqs] by simp
  moreover from this have "distinct (created_ids (snd (run s reqs)))"
    by (simp add: strict_sorted_iff)
  ultimately show ?thesis
    using run_created_ids [of s reqs] by simp
qed

lemma run_registrations_and_delete:
  "created_ids (snd (run init_store registrations_and_delete)) = [1, 2, 3]"
  by (simp add: registrations_and_delete_def init_store_def post_register_def upload_single_def
      delete_inventory_id_def findItemIndex_def id_matches_def parseInt_def is_ws_def
      is_digit_def digit_val_def digits_value_def trim_def json_def splice1_def Let_def)

theorem created_ids_strictly_increase_witness:
  "created_ids (snd (run init_store registrations_and_delete)) = [1, 2, 3]
   \<and> sorted_wrt (<) (created_ids (snd (run init_store registrations_and_delete)))
   \<and> distinct (created_ids (snd (run init_store registrations_and_delete)))"
  using created_ids_strictly_increase [of init_store registrations_and_delete]
    run_registrations_and_delete
  by simp


section \<open>Lookup in the example stores\<close>

lemma parseInt_1: "parseInt ''1'' = Some 1"
  by (simp add: parseInt_def is_ws_def is_digit_def digit_val_def digits_value_def)

lemma parseInt_abc: "parseInt ''abc'' = None"
  by (simp add: parseInt_def is_ws_def is_digit_def digit_val_def digits_value_def)

lemma findItem_init_store: "findItem init_store idstr = None"
  by (simp add: findItem_def init_store_def)

lemma findItem_drill_store: "findItem drill_store ''1'' = Some drill_item"
  by (simp add: findItem_def drill_store_def id_matches_def parseInt_1 drill_item_def)

lemma findItem_dangling_store: "findItem dangling_store ''1'' = Some drill_item"
  by (simp add: findItem_def dangling_store_def id_matches_def parseInt_1 drill_item_def)

lemma findItem_plain_store: "findItem plain_store ''1'' = Some plain_item"
  by (simp add: findItem_def plain_store_def id_matches_def parseInt_1 plain_item_def)

lemma photo_drill_item: "photo drill_item = Some ''17-42.png''"
  by (simp add: drill_item_def)

lemma photo_plain_item: "photo plain_item = None"
  by (simp add: plain_item_def)

lemma cache_dangling_store: "cache dangling_store = Map.empty"
  by (simp add: dangling_store_def)

lemma cache_drill_store: "cache drill_store = [''17-42.png'' \<mapsto> ''PNG1'']"
  by (simp add: drill_store_def)

lemma register_drill:
  "post_register init_store (Some ''Drill'') None (Some png_part)
     = (drill_store, json 201 (ItemJson drill_item))"
  by (simp add: post_register_def upload_single_def fileFilter_png_part filename_png_part
      content_png_part trim_Drill show_int_1 photo_path_def init_store_def drill_store_def
      drill_item_def Let_def)

section \<open>Fetching a photo\<close>

text \<open>C4, as the spec states it, fails: the response for a reference whose file is gone
  carries another error message than the response for a missing item.\<close>

theorem photo_not_found_bodies_differ:
  "snd (get_inventory_id_photo init_store ''1'') = json 404 (ErrorJson ''Photo not found'')
   \<and> snd (get_inventory_id_photo dangling_store ''1'')
       = json 404 (ErrorJson ''Photo file not found'')
   \<and> snd (get_inventory_id_photo dangling_store ''1'')
       \<noteq> snd (get_inventory_id_photo init_store ''1'')"
  by (simp add: get_inventory_id_photo_def findItem_init_store findItem_dangling_store
      photo_drill_item cache_dangling_store json_def)

text \<open>C4, amended: each of the three conditions yields status 404 with a JSON error body
  and leaves the store as it was. A missing item and an item without a photo reference
  give the same response, with the message \<open>Photo not found\<close>; a reference whose file is
  absent from the cache directory gives the message \<open>Photo file not found\<close>, so this
  third condition can be told from the other two by the body.\<close>

theorem photo_not_found_signals:
  "fst (get_inventory_id_photo s idstr) = s
   \<and> (findItem s idstr = None \<longrightarrow>
        snd (get_inventory_id_photo s idstr) = json 404 (ErrorJson ''Photo not found''))
   \<and> (\<forall>it. findItem s idstr = Some it \<and> (photo it = None \<or> photo it = Some []) \<longrightarrow>
        snd (get_inventory_id_photo s idstr) = json 404 (ErrorJson ''Photo not found''))
   \<and> (\<forall>it f. findItem s idstr = Some it \<and> photo it = Some f \<and> f \<noteq> [] \<and> cache s f = None \<longrightarrow>
        snd (get_inventory_id_photo s idstr) = json 404 (ErrorJson ''Photo file not found''))"
  by (auto simp: get_inventory_id_photo_def split: option.splits)

theorem photo_not_found_signals_witness:
  "snd (get_inventory_id_photo init_store ''1'') = json 404 (ErrorJson ''Photo not found'')
   \<and> snd (get_inventory_id_photo plain_store ''1'') = json 404 (ErrorJson ''Photo not found'')
   \<and> snd (get_inventory_id_photo dangling_store ''1'')
       = json 404 (ErrorJson ''Photo file not found'')"
proof -
  have a: "snd (get_inventory_id_photo init_store ''1'') = json 404 (ErrorJson ''Photo not found'')"
    using photo_not_found_signals [of init_store "''1''"] findItem_init_store by simp
  have b: "snd (get_inventory_id_photo plain_store ''1'')
      = json 404 (ErrorJson ''Photo not found'')"
    using photo_not_found_signals [of plain_store "''1''"] findItem_plain_store photo_plain_item
    by simp
  have c: "snd (get_inventory_id_photo dangling_store ''1'')
      = json 404 (ErrorJson ''Photo file not found'')"
    using photo_not_found_signals [of dangling_store "''1''"] findItem_dangling_store
      photo_drill_item cache_dangling_store
    by simp
  from a b c show ?thesis by simp
qed


section \<open>Assigning to the fields of a found item\<close>

lemma findItem_SomeD:
  assumes "findItem s idstr = Some it"
  shows "findItemIndex s idstr \<noteq> - 1"
    and "nat (findItemIndex s idstr) < length (inventory s)"
    and "inventory s ! nat (findItemIndex s idstr) = it"
    and "id_matches idstr it"
proof -
  from assms show ne: "findItemIndex s idstr \<noteq> - 1"
    by (simp add: findItem_def findItemIndex_def find_findIndex split: if_splits)
  from ne show "nat (findItemIndex s idstr) < length (inventory s)"
    using findIndex_some [of "id_matches idstr" "inventory s"] by (simp add: findItemIndex_def)
  from assms ne show eq: "inventory s ! nat (findItemIndex s idstr) = it"
    by (simp add: findItem_def findItemIndex_def find_findIndex)
  from ne eq show "id_matches idstr it"
    using findIndex_some [of "id_matches idstr" "inventory s"] by (simp add: findItemIndex_def)
qed

lemma findItem_None_iff: "findItem s idstr = None \<longleftrightarrow> findItemIndex s idstr = - 1"
  by (simp add: findItem_def findItemIndex_def find_findIndex)

lemma findIndex_list_update:
  "findIndex P xs \<noteq> - 1 \<Longrightarrow> P y \<Longrightarrow> findIndex P (xs[nat (findIndex P xs) := y]) = findIndex P xs"
proof (induction xs)
  case Nil
  then show ?case by simp
next
  case (Cons x xs)
  show ?case
  proof (cases "P x")
    case True
    with Cons.prems show ?thesis by simp
  next
    case False
    with Cons.prems have ne: "findIndex P xs \<noteq> - 1" by (auto simp: Let_def)
    from findIndex_some [OF ne] have "0 \<le> findIndex P xs" by simp
    then have "nat (findIndex P xs + 1) = Suc (nat (findIndex P xs))" by simp
    with False ne Cons.IH [OF ne Cons.prems(2)] show ?thesis by (simp add: Let_def)
  qed
qed

lemma findItem_assign:
  assumes "findItem s idstr = Some it" and "item_id it' = item_id it"
    and "inventory s' = (inventory s)[nat (findItemIndex s idstr) := it']"
  shows "findItem s' idstr = Some it'"
proof -
  let ?P = "id_matches idstr"
  from findItem_SomeD [OF assms(1)]
  have ne: "findIndex ?P (inventory s) \<noteq> - 1"
    and lt: "nat (findIndex ?P (inventory s)) < length (inventory s)"
    and m: "?P it"
    by (simp_all add: findItemIndex_def)
  from m assms(2) have m': "?P it'" by (simp add: id_matches_def)
  have idx: "findIndex ?P (inventory s') = findIndex ?P (inventory s)"
    using findIndex_list_update [OF ne m'] assms(3) by (simp add: findItemIndex_def)
  with ne lt assms(3) show ?thesis
    by (simp add: findItem_def find_findIndex findItemIndex_def)
qed

section \<open>Replacing a photo\<close>

lemma filename_not_empty: "filename file \<noteq> []"
  by (simp add: filename_def)

text \<open>C5, as the spec states it, fails when the upload middleware generates the name
  the item already references (the same clock value and the same random number as at the
  earlier upload): the new file replaces the old one under that name, and the handler
  then removes it as the old file. The replacement answers 200 and the photo is gone.\<close>

theorem replace_photo_same_name_loses_file:
  "post_register init_store (Some ''Drill'') None (Some png_part)
     = (drill_store, json 201 (ItemJson drill_item))
   \<and> photo drill_item = Some (filename png_part)
   \<and> status (snd (put_inventory_id_photo drill_store ''1'' (Some png_part))) = 200
   \<and> snd (get_inventory_id_photo (fst (put_inventory_id_photo drill_store ''1'' (Some png_part)))
         ''1'') = json 404 (ErrorJson ''Photo file not found'')"
proof -
  have up: "upload_single drill_store (Some png_part) = (drill_store, Some ''17-42.png'')"
    by (simp add: upload_single_def fileFilter_png_part filename_png_part content_png_part
        drill_store_def)
  have idx: "findItemIndex drill_store ''1'' = 0"
    by (simp add: findItemIndex_def drill_store_def id_matches_def parseInt_1 drill_item_def)
  have inv: "inventory drill_store = [drill_item]"
    by (simp add: drill_store_def)
  have put: "put_inventory_id_photo drill_store ''1'' (Some png_part)
      = (dangling_store, json 200 (ItemJson drill_item))"
    by (simp add: put_inventory_id_photo_def up findItem_drill_store photo_drill_item idx inv
        Let_def photo_path_def)
       (simp add: drill_store_def dangling_store_def drill_item_def)
  show ?thesis
    by (simp add: register_drill photo_drill_item filename_png_part put
        get_inventory_id_photo_def findItem_dangling_store cache_dangling_store json_def)
qed

text \<open>C5, amended: for an existing item and an upload the filter accepts, whose generated
  file name differs from the item's current photo reference, the replacement succeeds
  whatever the cache directory holds (an old file already missing is no error);
  afterwards fetching the photo of that id returns the uploaded content, and the file
  the item referenced before is not in the cache directory.\<close>

theorem replace_photo_then_fetch:
  assumes "findItem s idstr = Some it"
    and "startsWith (mimetype file) ''image/''"
    and "photo it \<noteq> Some (filename file)"
  shows "status (snd (put_inventory_id_photo s idstr (Some file))) = 200
     \<and> snd (get_inventory_id_photo (fst (put_inventory_id_photo s idstr (Some file))) idstr)
         = json 200 (FileBody (content file))
     \<and> (case photo it of
          None \<Rightarrow> True
        | Some old \<Rightarrow>
            old = [] \<or> cache (fst (put_inventory_id_photo s idstr (Some file))) old = None)"
proof -
  define up where "up = s\<lparr>cache := (cache s)(filename file \<mapsto> content file)\<rparr>"
  define it' where "it' = it\<lparr>photo := Some (filename file), photo_url := Some (photo_path idstr)\<rparr>"
  define s1 where "s1 = (case photo it of
                           None \<Rightarrow> up
                         | Some old \<Rightarrow> if old = [] then up else unlink_if_exists up old)"
  define s' where "s' = s1\<lparr>inventory := (inventory s1)[nat (findItemIndex up idstr) := it']\<rparr>"
  have up: "upload_single s (Some file) = (up, Some (filename file))"
    using assms(2) by (simp add: upload_single_def fileFilter_def up_def)
  have found: "findItem up idstr = Some it"
    using assms(1) by (simp add: findItem_def up_def)
  have put: "put_inventory_id_photo s idstr (Some file) = (s', json 200 (ItemJson it'))"
    by (simp add: put_inventory_id_photo_def up found Let_def s'_def s1_def it'_def)
  have inv1: "inventory s1 = inventory up"
    by (simp add: s1_def split: option.splits)
  have found': "findItem s' idstr = Some it'"
    by (rule findItem_assign [OF found]) (simp_all add: inv1 s'_def it'_def)
  have photo': "photo it' = Some (filename file)"
    by (simp add: it'_def)
  have cache_up: "cache up (filename file) = Some (content file)"
    by (simp add: up_def)
  have cache': "cache s' (filename file) = Some (content file)"
    using assms(3) cache_up by (auto simp: s'_def s1_def split: option.splits)
  have fetch: "snd (get_inventory_id_photo s' idstr) = json 200 (FileBody (content file))"
    by (simp add: get_inventory_id_photo_def found' photo' filename_not_empty cache')
  have gone: "case photo it of None \<Rightarrow> True | Some old \<Rightarrow> old = [] \<or> cache s' old = None"
    by (simp add: s'_def s1_def split: option.splits)
  from fetch gone show ?thesis
    unfolding put fst_conv snd_conv by (simp add: json_def)
qed

theorem replace_photo_then_fetch_witness:
  "status (snd (put_inventory_id_photo drill_store ''1'' (Some jpg_part))) = 200
   \<and> snd (get_inventory_id_photo (fst (put_inventory_id_photo drill_store ''1'' (Some jpg_part)))
         ''1'') = json 200 (FileBody ''JPG2'')
   \<and> cache (fst (put_inventory_id_photo drill_store ''1'' (Some jpg_part))) ''17-42.png'' = None
   \<and> status (snd (put_inventory_id_photo dangling_store ''1'' (Some jpg_part))) = 200"
proof -
  have img: "startsWith (mimetype jpg_part) ''image/''"
    using fileFilter_jpg_part by (simp add: fileFilter_def)
  have fresh: "photo drill_item \<noteq> Some (filename jpg_part)"
    by (simp add: photo_drill_item filename_jpg_part)
  show ?thesis
    using replace_photo_then_fetch [OF findItem_drill_store img fresh]
      replace_photo_then_fetch [OF findItem_dangling_store img fresh]
    by (simp add: photo_drill_item content_jpg_part)
qed


section \<open>Updating name and description\<close>

lemma put_inventory_id_found:
  assumes "findItem s idstr = Some it"
  shows "put_inventory_id s idstr name desc =
     (s\<lparr>inventory := (inventory s)[nat (findItemIndex s idstr) :=
          it\<lparr>inventory_name := (case name of None \<Rightarrow> inventory_name it | Some n \<Rightarrow> n),
             description := (case desc of None \<Rightarrow> description it | Some d \<Rightarrow> d)\<rparr>]\<rparr>,
      json 200 (ItemJson
          (it\<lparr>inventory_name := (case name of None \<Rightarrow> inventory_name it | Some n \<Rightarrow> n),
              description := (case desc of None \<Rightarrow> description it | Some d \<Rightarrow> d)\<rparr>)))"
  using assms by (simp add: put_inventory_id_def Let_def split: option.splits)

text \<open>C6: for an existing item, the update answers 200 with the item in which each field
  present in the request has the request's value, the empty string included and nothing
  trimmed, and each absent field has its stored value; a lookup of the id after the
  update finds exactly this item.\<close>

theorem update_item_overwrites_present_fields:
  assumes "findItem s idstr = Some it"
  shows "snd (put_inventory_id s idstr name desc) =
       json 200 (ItemJson
          (it\<lparr>inventory_name := (case name of None \<Rightarrow> inventory_name it | Some n \<Rightarrow> n),
              description := (case desc of None \<Rightarrow> description it | Some d \<Rightarrow> d)\<rparr>))
     \<and> findItem (fst (put_inventory_id s idstr name desc)) idstr =
       Some (it\<lparr>inventory_name := (case name of None \<Rightarrow> inventory_name it | Some n \<Rightarrow> n),
                 description := (case desc of None \<Rightarrow> description it | Some d \<Rightarrow> d)\<rparr>)"
proof -
  define it' where "it' = it\<lparr>inventory_name := (case name of None \<Rightarrow> inventory_name it | Some n \<Rightarrow> n),
              description := (case desc of None \<Rightarrow> description it | Some d \<Rightarrow> d)\<rparr>"
  define s' where "s' = s\<lparr>inventory := (inventory s)[nat (findItemIndex s idstr) := it']\<rparr>"
  have put: "put_inventory_id s idstr name desc = (s', json 200 (ItemJson it'))"
    using put_inventory_id_found [OF assms, of name desc] by (simp add: s'_def it'_def)
  have "findItem s' idstr = Some it'"
    by (rule findItem_assign [OF assms]) (simp_all add: s'_def it'_def)
  with put show ?thesis
    by (simp add: it'_def)
qed

theorem update_item_overwrites_present_fields_witness:
  "snd (put_inventory_id drill_store ''1'' (Some []) None)
     = json 200 (ItemJson (drill_item\<lparr>inventory_name := []\<rparr>))
   \<and> findItem (fst (put_inventory_id drill_store ''1'' (Some []) None)) ''1''
     = Some (drill_item\<lparr>inventory_name := []\<rparr>)
   \<and> snd (put_inventory_id drill_store ''1'' None (Some '' 14in ''))
     = json 200 (ItemJson (drill_item\<lparr>description := '' 14in ''\<rparr>))"
  using update_item_overwrites_present_fields [OF findItem_drill_store, of "Some []" None]
    update_item_overwrites_present_fields [OF findItem_drill_store, of None "Some '' 14in ''"]
  by (simp add: drill_item_def)

text \<open>C10: an update of an existing item changes neither the length of the collection,
  nor the id counter, nor the cache directory. At every position the id, the photo and
  the photo URL are what they were, and at every position other than that of the item
  found the whole item is what it was.\<close>

theorem update_item_frame:
  assumes "findItem s idstr = Some it"
  shows "length (inventory (fst (put_inventory_id s idstr name desc))) = length (inventory s)
     \<and> nextId (fst (put_inventory_id s idstr name desc)) = nextId s
     \<and> cache (fst (put_inventory_id s idstr name desc)) = cache s
     \<and> map item_id (inventory (fst (put_inventory_id s idstr name desc)))
         = map item_id (inventory s)
     \<and> map photo (inventory (fst (put_inventory_id s idstr name desc)))
         = map photo (inventory s)
     \<and> map photo_url (inventory (fst (put_inventory_id s idstr name desc)))
         = map photo_url (inventory s)
     \<and> (\<forall>j. j \<noteq> nat (findItemIndex s idstr) \<longrightarrow>
           inventory (fst (put_inventory_id s idstr name desc)) ! j = inventory s ! j)"
proof -
  from findItem_SomeD [OF assms]
  have at: "inventory s ! nat (findItemIndex s idstr) = it"
    and lt: "nat (findItemIndex s idstr) < length (inventory s)" by simp_all
  have keep: "map f ((inventory s)[nat (findItemIndex s idstr) := v]) = map f (inventory s)"
    if "f (inventory s ! nat (findItemIndex s idstr)) = f v" for f :: "item \<Rightarrow> 'b" and v
  proof -
    have "(map f (inventory s))[nat (findItemIndex s idstr) := f v]
        = (map f (inventory s))[nat (findItemIndex s idstr) :=
            map f (inventory s) ! nat (findItemIndex s idstr)]"
      using that lt by simp
    then show ?thesis
      by (simp add: map_update)
  qed
  show ?thesis
    unfolding put_inventory_id_found [OF assms] fst_conv
    by (simp add: keep at)
qed

theorem update_item_frame_witness:
  "length (inventory (fst (put_inventory_id drill_store ''1'' (Some ''Saw'') (Some ''14in''))))
     = 1
   \<and> nextId (fst (put_inventory_id drill_store ''1'' (Some ''Saw'') (Some ''14in''))) = 2
   \<and> map item_id (inventory (fst (put_inventory_id drill_store ''1'' (Some ''Saw'') (Some ''14in''))))
     = [1]
   \<and> map photo (inventory (fst (put_inventory_id drill_store ''1'' (Some ''Saw'') (Some ''14in''))))
     = [Some ''17-42.png'']
   \<and> map photo_url (inventory (fst (put_inventory_id drill_store ''1'' (Some ''Saw'') (Some ''14in''))))
     = [Some ''/inventory/1/photo'']"
  using update_item_frame [OF findItem_drill_store, of "Some ''Saw''" "Some ''14in''"]
  by (simp add: drill_store_def drill_item_def)


section \<open>Deleting an item\<close>

lemma splice1_Cons_Suc: "splice1 (Suc i) (x # xs) = x # splice1 i xs"
  by (simp add: splice1_def)

lemma splice1_Cons_0: "splice1 0 (x # xs) = xs"
  by (simp add: splice1_def)

text \<open>When at most one element satisfies the predicate, removing the element at the
  first hit leaves the elements that do not satisfy it.\<close>

lemma splice1_findIndex:
  assumes "findIndex P xs \<noteq> - 1" and "distinct (map f xs)"
    and "\<And>x y. P x \<Longrightarrow> P y \<Longrightarrow> f x = f y"
  shows "splice1 (nat (findIndex P xs)) xs = filter (\<lambda>x. \<not> P x) xs"
  using assms(1,2)
proof (induction xs)
  case Nil
  then show ?case by simp
next
  case (Cons x xs)
  show ?case
  proof (cases "P x")
    case True
    have "\<not> P y" if "y \<in> set xs" for y
    proof
      assume "P y"
      with True have "f x = f y" by (rule assms(3))
      with that Cons.prems(2) show False by auto
    qed
    then have "filter (\<lambda>x. \<not> P x) xs = xs" by (simp add: filter_id_conv)
    with True show ?thesis by (simp add: splice1_Cons_0)
  next
    case False
    with Cons.prems have ne: "findIndex P xs \<noteq> - 1" by (auto simp: Let_def)
    from findIndex_some [OF ne] have "0 \<le> findIndex P xs" by simp
    then have "nat (findIndex P xs + 1) = Suc (nat (findIndex P xs))" by simp
    moreover from Cons.prems(2) have "distinct (map f xs)" by simp
    ultimately show ?thesis
      using False ne Cons.IH [OF ne] by (simp add: Let_def splice1_Cons_Suc)
  qed
qed

lemma id_matches_same_id: "id_matches idstr x \<Longrightarrow> id_matches idstr y \<Longrightarrow> item_id x = item_id y"
  by (simp add: id_matches_def) (metis option.inject)

lemma findIndex_filter_not: "findIndex P (filter (\<lambda>x. \<not> P x) xs) = - 1"
  by (simp add: findIndex_none)

lemma delete_inventory_id_found:
  assumes "findItem s idstr = Some it"
  shows "delete_inventory_id s idstr =
     ((case photo it of
         None \<Rightarrow> s
       | Some f \<Rightarrow> if f = [] then s else unlink_if_exists s f)
        \<lparr>inventory := splice1 (nat (findItemIndex s idstr)) (inventory s)\<rparr>,
      json 200 (MessageJson ''Item deleted successfully''))"
proof -
  from findItem_SomeD [OF assms]
  have ne: "findItemIndex s idstr \<noteq> - 1"
    and at: "inventory s ! nat (findItemIndex s idstr) = it" by simp_all
  have inv: "inventory (case photo it of None \<Rightarrow> s
              | Some f \<Rightarrow> if f = [] then s else unlink_if_exists s f) = inventory s"
    by (simp split: option.splits)
  from ne at show ?thesis
    by (simp add: delete_inventory_id_def Let_def inv)
qed

text \<open>C7: in a store with one item per id (every store the server reaches is one, see
  \<open>store_ok_run\<close> below), deleting an existing item answers 200
  whatever the cache directory holds (a photo file already missing is no error). The
  collection afterwards is the one before without the items of that id, that is without
  this item; when the item referenced a photo, no file of that name is left in the cache
  directory; and deleting the same id again answers 404 and changes nothing.\<close>

theorem delete_item_then_not_found:
  assumes "distinct (map item_id (inventory s))" and "findItem s idstr = Some it"
  shows "snd (delete_inventory_id s idstr) = json 200 (MessageJson ''Item deleted successfully'')
     \<and> inventory (fst (delete_inventory_id s idstr))
         = filter (\<lambda>i. item_id i \<noteq> item_id it) (inventory s)
     \<and> it \<notin> set (inventory (fst (delete_inventory_id s idstr)))
     \<and> (case photo it of
          None \<Rightarrow> cache (fst (delete_inventory_id s idstr)) = cache s
        | Some f \<Rightarrow> f = [] \<or> cache (fst (delete_inventory_id s idstr)) f = None)
     \<and> delete_inventory_id (fst (delete_inventory_id s idstr)) idstr
         = (fst (delete_inventory_id s idstr), json 404 (ErrorJson ''Item not found''))"
proof -
  define s1 where "s1 = (case photo it of
                           None \<Rightarrow> s
                         | Some f \<Rightarrow> if f = [] then s else unlink_if_exists s f)"
  define s' where "s' = s1\<lparr>inventory := splice1 (nat (findItemIndex s idstr)) (inventory s)\<rparr>"
  have del: "delete_inventory_id s idstr = (s', json 200 (MessageJson ''Item deleted successfully''))"
    using delete_inventory_id_found [OF assms(2)] by (simp add: s'_def s1_def)
  from findItem_SomeD [OF assms(2)]
  have ne: "findIndex (id_matches idstr) (inventory s) \<noteq> - 1" and m: "id_matches idstr it"
    by (simp_all add: findItemIndex_def)
  have rest: "inventory s' = filter (\<lambda>i. \<not> id_matches idstr i) (inventory s)"
    using splice1_findIndex [OF ne assms(1) id_matches_same_id]
    by (simp add: s'_def findItemIndex_def)
  have same: "id_matches idstr i \<longleftrightarrow> item_id i = item_id it" for i
    using m by (cases "parseInt idstr") (auto simp: id_matches_def)
  have by_id: "inventory s' = filter (\<lambda>i. item_id i \<noteq> item_id it) (inventory s)"
    by (simp add: rest same)
  have gone: "it \<notin> set (inventory s')"
    by (simp add: by_id)
  have files: "case photo it of
                 None \<Rightarrow> cache s' = cache s
               | Some f \<Rightarrow> f = [] \<or> cache s' f = None"
    by (simp add: s'_def s1_def split: option.splits)
  have "findItemIndex s' idstr = - 1"
    by (simp add: findItemIndex_def rest findIndex_filter_not)
  then have again: "delete_inventory_id s' idstr = (s', json 404 (ErrorJson ''Item not found''))"
    by (simp add: delete_inventory_id_def)
  from by_id gone files again show ?thesis
    unfolding del fst_conv snd_conv by simp
qed

theorem delete_item_then_not_found_witness:
  "snd (delete_inventory_id drill_store ''1'') = json 200 (MessageJson ''Item deleted successfully'')
   \<and> inventory (fst (delete_inventory_id drill_store ''1'')) = []
   \<and> cache (fst (delete_inventory_id drill_store ''1'')) ''17-42.png'' = None
   \<and> snd (delete_inventory_id (fst (delete_inventory_id drill_store ''1'')) ''1'')
       = json 404 (ErrorJson ''Item not found'')
   \<and> snd (delete_inventory_id dangling_store ''1'')
       = json 200 (MessageJson ''Item deleted successfully'')"
proof -
  have d1: "distinct (map item_id (inventory drill_store))"
    by (simp add: drill_store_def)
  have d2: "distinct (map item_id (inventory dangling_store))"
    by (simp add: dangling_store_def)
  have inv: "inventory drill_store = [drill_item]"
    by (simp add: drill_store_def)
  show ?thesis
    using delete_item_then_not_found [OF d1 findItem_drill_store]
      delete_item_then_not_found [OF d2 findItem_dangling_store]
    by (simp add: photo_drill_item inv)
qed


section \<open>One item per id in every store the server reaches\<close>

lemma store_ok_init_store: "store_ok init_store"
  by (simp add: store_ok_def ids_below_def init_store_def)

lemma store_ok_same_ids:
  "map item_id (inventory s') = map item_id (inventory s) \<Longrightarrow> nextId s' = nextId s \<Longrightarrow>
     store_ok s \<Longrightarrow> store_ok s'"
proof -
  assume ids: "map item_id (inventory s') = map item_id (inventory s)"
    and n: "nextId s' = nextId s" and ok: "store_ok s"
  have conv: "list_all (\<lambda>i. item_id i < k) xs \<longleftrightarrow> list_all (\<lambda>v. v < k) (map item_id xs)"
    for k and xs :: "item list"
    by (simp add: list_all_iff)
  from ok have "list_all (\<lambda>v. v < nextId s) (map item_id (inventory s))"
    by (simp add: store_ok_def ids_below_def conv)
  with ids have "list_all (\<lambda>i. item_id i < nextId s) (inventory s')"
    by (simp only: conv)
  with ids n ok show ?thesis
    by (simp add: store_ok_def ids_below_def)
qed

lemma map_item_id_assign:
  assumes "findItem s idstr = Some it" and "item_id it' = item_id it"
  shows "map item_id ((inventory s)[nat (findItemIndex s idstr) := it']) = map item_id (inventory s)"
proof -
  from findItem_SomeD [OF assms(1)]
  have at: "inventory s ! nat (findItemIndex s idstr) = it"
    and lt: "nat (findItemIndex s idstr) < length (inventory s)" by simp_all
  have "(map item_id (inventory s))[nat (findItemIndex s idstr) := item_id it']
      = (map item_id (inventory s))[nat (findItemIndex s idstr) :=
          map item_id (inventory s) ! nat (findItemIndex s idstr)]"
    using assms(2) at lt by simp
  then show ?thesis
    by (simp add: map_update)
qed

lemma store_ok_post_register: "store_ok s \<Longrightarrow> store_ok (fst (post_register s name desc part))"
proof -
  assume ok: "store_ok s"
  obtain s1 req_file where u: "upload_single s part = (s1, req_file)"
    by (cases "upload_single s part")
  have "inventory s1 = inventory s" "nextId s1 = nextId s"
    using upload_single_inventory [of s part] upload_single_nextId [of s part] u by simp_all
  with ok have ok1: "store_ok s1"
    by (simp add: store_ok_def ids_below_def)
  then have "\<forall>i \<in> set (inventory s1). item_id i \<noteq> nextId s1"
    by (auto simp: store_ok_def ids_below_def list_all_iff)
  with ok1 u show ?thesis
    by (auto simp: post_register_def Let_def store_ok_def ids_below_def list_all_iff
        split: option.splits)
qed

lemma store_ok_put_inventory_id: "store_ok s \<Longrightarrow> store_ok (fst (put_inventory_id s idstr name desc))"
proof (cases "findItem s idstr")
  case None
  assume "store_ok s"
  with None show ?thesis by (simp add: put_inventory_id_def)
next
  case (Some it)
  assume ok: "store_ok s"
  show ?thesis
    unfolding put_inventory_id_found [OF Some] fst_conv
    by (rule store_ok_same_ids [OF _ _ ok]) (simp_all add: map_item_id_assign [OF Some])
qed

lemma store_ok_put_inventory_id_photo:
  "store_ok s \<Longrightarrow> store_ok (fst (put_inventory_id_photo s idstr part))"
proof -
  assume ok: "store_ok s"
  obtain s1 req_file where u: "upload_single s part = (s1, req_file)"
    by (cases "upload_single s part")
  have same: "inventory s1 = inventory s" "nextId s1 = nextId s"
    using upload_single_inventory [of s part] upload_single_nextId [of s part] u by simp_all
  then have f: "findItem s1 idstr = findItem s idstr" "findItemIndex s1 idstr = findItemIndex s idstr"
    by (simp_all add: findItem_def findItemIndex_def)
  show ?thesis
  proof (cases "findItem s idstr")
    case None
    with u f ok same show ?thesis
      by (simp add: put_inventory_id_photo_def store_ok_def ids_below_def)
  next
    case (Some it)
    show ?thesis
    proof (cases req_file)
      case None
      with u f ok same Some show ?thesis
        by (simp add: put_inventory_id_photo_def store_ok_def ids_below_def)
    next
      case (Some fname)
      have "map item_id ((inventory s)[nat (findItemIndex s idstr) :=
              it\<lparr>photo := Some fname, photo_url := Some (photo_path idstr)\<rparr>])
            = map item_id (inventory s)"
        by (rule map_item_id_assign [OF \<open>findItem s idstr = Some it\<close>]) simp
      with u f same Some \<open>findItem s idstr = Some it\<close> show ?thesis
        by (intro store_ok_same_ids [OF _ _ ok])
           (simp_all add: put_inventory_id_photo_def Let_def split: option.splits)
    qed
  qed
qed

lemma store_ok_delete_inventory_id: "store_ok s \<Longrightarrow> store_ok (fst (delete_inventory_id s idstr))"
proof (cases "findItem s idstr")
  case None
  assume "store_ok s"
  with None show ?thesis by (simp add: delete_inventory_id_def findItem_None_iff)
next
  case (Some it)
  assume ok: "store_ok s"
  then have d: "distinct (map item_id (inventory s))" by (simp add: store_ok_def)
  from findItem_SomeD [OF Some]
  have ne: "findIndex (id_matches idstr) (inventory s) \<noteq> - 1"
    by (simp add: findItemIndex_def)
  have rest: "splice1 (nat (findItemIndex s idstr)) (inventory s)
      = filter (\<lambda>i. \<not> id_matches idstr i) (inventory s)"
    using splice1_findIndex [OF ne d id_matches_same_id] by (simp add: findItemIndex_def)
  from ok show ?thesis
    unfolding delete_inventory_id_found [OF Some] fst_conv
    by (auto simp: rest store_ok_def ids_below_def list_all_iff distinct_map_filter
        split: option.splits)
qed

lemma store_ok_handle: "store_ok s \<Longrightarrow> store_ok (fst (handle s r))"
proof (cases r)
  case (Register name desc part)
  assume "store_ok s"
  with Register show ?thesis by (simp add: store_ok_post_register)
next
  case ListAll
  assume "store_ok s"
  with ListAll show ?thesis by (simp add: get_inventory_def)
next
  case (GetItem idstr)
  assume "store_ok s"
  with GetItem show ?thesis by (simp add: get_inventory_id_def split: option.splits)
next
  case (Update idstr name desc)
  assume "store_ok s"
  with Update show ?thesis by (simp add: store_ok_put_inventory_id)
next
  case (GetPhoto idstr)
  assume "store_ok s"
  with GetPhoto show ?thesis by (simp add: get_inventory_id_photo_def split: option.splits)
next
  case (PutPhoto idstr part)
  assume "store_ok s"
  with PutPhoto show ?thesis by (simp add: store_ok_put_inventory_id_photo)
next
  case (Delete idstr)
  assume "store_ok s"
  with Delete show ?thesis by (simp add: store_ok_delete_inventory_id)
next
  case (Search body_id has_photo)
  assume "store_ok s"
  with Search show ?thesis by (simp add: post_search_def Let_def split: option.splits)
qed

text \<open>Every store the server reaches from its start satisfies the invariant; this is
  what discharges the hypothesis of one item per id in the theorems on deletion.\<close>

lemma store_ok_run: "store_ok s \<Longrightarrow> store_ok (fst (run s reqs))"
proof (induction reqs arbitrary: s)
  case Nil
  then show ?case by simp
next
  case (Cons r reqs)
  obtain s1 resp where h: "handle s r = (s1, resp)" by (cases "handle s r")
  with store_ok_handle [OF Cons.prems, of r] have "store_ok s1" by simp
  from Cons.IH [OF this] h show ?case
    by (cases "run s1 reqs") simp
qed

lemma reachable_distinct_ids: "distinct (map item_id (inventory (fst (run init_store reqs))))"
  using store_ok_run [OF store_ok_init_store, of reqs] by (simp add: store_ok_def)


section \<open>Decimal id texts parse back to the id\<close>

lemma is_dec_digit_char: "d < 10 \<Longrightarrow> is_dec (digit_char d)"
  by (simp add: is_dec_def digit_char_def del: set_simps)

lemma digit_val_digit_char: "d < 10 \<Longrightarrow> digit_val (digit_char d) = Some d"
proof -
  assume "d < 10"
  then have "d \<in> {0, 1, 2, 3, 4, 5, 6, 7, 8, 9}" by auto
  then show ?thesis
    by (auto simp: digit_char_def digit_val_def)
qed

lemma is_dec_facts:
  assumes "is_dec c"
  shows "\<not> is_ws c" and "is_digit 10 c"
    and "c \<noteq> CHR ''x''" and "c \<noteq> CHR ''X''" and "c \<noteq> CHR ''-''" and "c \<noteq> CHR ''+''"
  using assms by (auto simp: is_dec_def is_ws_def is_digit_def digit_val_def)

lemma show_nat_dec: "show_nat n \<noteq> [] \<and> list_all is_dec (show_nat n)"
proof (induction n rule: show_nat.induct)
  case (1 n)
  show ?case
  proof (cases "n < 10")
    case True
    then show ?thesis by (simp add: show_nat.simps [of n] is_dec_digit_char)
  next
    case False
    have "n mod 10 < 10" by simp
    with False 1 show ?thesis
      by (simp add: show_nat.simps [of n] is_dec_digit_char)
  qed
qed

lemma digits_value_snoc:
  "digits_value R (Z @ [c]) = digits_value R Z * R + (case digit_val c of None \<Rightarrow> 0 | Some d \<Rightarrow> d)"
  by (simp add: digits_value_def)

lemma digits_value_show_nat: "digits_value 10 (show_nat n) = n"
proof (induction n rule: show_nat.induct)
  case (1 n)
  show ?case
  proof (cases "n < 10")
    case True
    then show ?thesis
      by (simp add: show_nat.simps [of n] digits_value_def digit_val_digit_char)
  next
    case False
    have "n mod 10 < 10" by simp
    with False 1 show ?thesis
      by (simp add: show_nat.simps [of n] digits_value_snoc digit_val_digit_char)
  qed
qed

text \<open>A non-empty run of decimal digits is read by \<open>parseInt\<close> in radix 10, whole.\<close>

lemma parseInt_dec:
  assumes "Z \<noteq> []" and "list_all is_dec Z"
  shows "parseInt Z = Some (int (digits_value 10 Z))"
    and "parseInt (CHR ''-'' # Z) = Some (- int (digits_value 10 Z))"
proof -
  from assms obtain c cs where Z: "Z = c # cs" by (cases Z) auto
  with assms(2) have c: "is_dec c" and cs: "list_all is_dec cs" by simp_all
  have nows: "dropWhile is_ws Z = Z"
    using Z is_dec_facts(1) [OF c] by simp
  have nohex: "take 2 Z \<noteq> ''0x''" "take 2 Z \<noteq> ''0X''"
  proof -
    show "take 2 Z \<noteq> ''0x''"
    proof (cases cs)
      case Nil
      with Z show ?thesis by simp
    next
      case (Cons d ds)
      with cs have "is_dec d" by simp
      from is_dec_facts(3) [OF this] Z Cons show ?thesis by simp
    qed
    show "take 2 Z \<noteq> ''0X''"
    proof (cases cs)
      case Nil
      with Z show ?thesis by simp
    next
      case (Cons d ds)
      with cs have "is_dec d" by simp
      from is_dec_facts(4) [OF this] Z Cons show ?thesis by simp
    qed
  qed
  have all: "takeWhile (is_digit 10) Z = Z"
    using assms(2) is_dec_facts(2) by (simp add: takeWhile_eq_all_conv list_all_iff)
  have hd: "hd Z \<noteq> CHR ''-''" "hd Z \<noteq> CHR ''+''"
    using Z is_dec_facts(5,6) [OF c] by simp_all
  show "parseInt Z = Some (int (digits_value 10 Z))"
    using assms(1) hd nohex by (simp add: parseInt_def nows all Let_def)
  have minus: "\<not> is_ws (CHR ''-'')"
    by (simp add: is_ws_def)
  show "parseInt (CHR ''-'' # Z) = Some (- int (digits_value 10 Z))"
    using assms(1) nohex by (simp add: parseInt_def minus all Let_def)
qed

lemma parseInt_show_int: "parseInt (show_int n) = Some n"
proof (cases "n < 0")
  case True
  have "parseInt (CHR ''-'' # show_nat (nat (- n))) = Some (- int (digits_value 10 (show_nat (nat (- n)))))"
    using show_nat_dec [of "nat (- n)"] by (intro parseInt_dec(2)) simp_all
  with True show ?thesis
    by (simp add: show_int_def digits_value_show_nat)
next
  case False
  have "parseInt (show_nat (nat n)) = Some (int (digits_value 10 (show_nat (nat n))))"
    using show_nat_dec [of "nat n"] by (intro parseInt_dec(1)) simp_all
  with False show ?thesis
    by (simp add: show_int_def digits_value_show_nat)
qed

section \<open>Looking an item up\<close>

lemma id_matches_iff: "id_matches t i \<longleftrightarrow> parseInt t = Some (item_id i)"
  by (auto simp: id_matches_def)

lemma parseInt_12abc: "parseInt ''12abc'' = Some 12"
  by (simp add: parseInt_def is_ws_def is_digit_def digit_val_def digits_value_def)

text \<open>C9: the lookup changes nothing. It answers 200 exactly when some stored item's id
  equals the integer that \<open>parseInt\<close> reads from the requested text, and then returns
  such an item; in every other case, in particular when \<open>parseInt\<close> reads no integer, it
  answers 404 with the one error body. With one item per id, every stored item whose id
  equals the parsed integer is the item returned, and every stored item is returned for
  the decimal text of its id. (\<open>parseInt\<close> reads a leading integer: \<open>12abc\<close> is 12.)\<close>

theorem get_item_matches_parsed_id:
  "fst (get_inventory_id s idstr) = s
   \<and> (parseInt idstr = None \<longrightarrow>
        snd (get_inventory_id s idstr) = json 404 (ErrorJson ''Item not found''))
   \<and> (status (snd (get_inventory_id s idstr)) = 200 \<longleftrightarrow>
        (\<exists>it \<in> set (inventory s). parseInt idstr = Some (item_id it)))
   \<and> (status (snd (get_inventory_id s idstr)) \<noteq> 200 \<longrightarrow>
        snd (get_inventory_id s idstr) = json 404 (ErrorJson ''Item not found''))
   \<and> (\<forall>it. snd (get_inventory_id s idstr) = json 200 (ItemJson it) \<longrightarrow>
        it \<in> set (inventory s) \<and> parseInt idstr = Some (item_id it))
   \<and> (distinct (map item_id (inventory s)) \<longrightarrow>
        (\<forall>it \<in> set (inventory s).
           (parseInt idstr = Some (item_id it) \<longrightarrow>
              snd (get_inventory_id s idstr) = json 200 (ItemJson it))
           \<and> snd (get_inventory_id s (show_int (item_id it))) = json 200 (ItemJson it)))"
proof -
  have unchanged: "fst (get_inventory_id s idstr) = s"
    by (simp add: get_inventory_id_def split: option.splits)
  have nan: "snd (get_inventory_id s idstr) = json 404 (ErrorJson ''Item not found'')"
    if "parseInt idstr = None"
  proof -
    from that have "\<forall>i \<in> set (inventory s). \<not> id_matches idstr i"
      by (simp add: id_matches_iff)
    then have "findItem s idstr = None"
      by (simp add: findItem_def find_None_iff)
    then show ?thesis by (simp add: get_inventory_id_def)
  qed
  have ok_iff: "status (snd (get_inventory_id s idstr)) = 200 \<longleftrightarrow>
        (\<exists>it \<in> set (inventory s). parseInt idstr = Some (item_id it))"
  proof (cases "findItem s idstr")
    case None
    then have "\<forall>i \<in> set (inventory s). \<not> id_matches idstr i"
      by (simp add: findItem_def find_None_iff)
    with None show ?thesis
      by (simp add: get_inventory_id_def json_def id_matches_iff)
  next
    case (Some it)
    then have "it \<in> set (inventory s)" "parseInt idstr = Some (item_id it)"
      by (auto simp: findItem_def find_Some_iff id_matches_iff)
    then have "\<exists>it \<in> set (inventory s). parseInt idstr = Some (item_id it)"
      by blast
    with Some show ?thesis
      by (simp add: get_inventory_id_def json_def)
  qed
  have other: "snd (get_inventory_id s idstr) = json 404 (ErrorJson ''Item not found'')"
    if "status (snd (get_inventory_id s idstr)) \<noteq> 200"
    using that by (simp add: get_inventory_id_def json_def split: option.splits)
  have sound: "it \<in> set (inventory s) \<and> parseInt idstr = Some (item_id it)"
    if "snd (get_inventory_id s idstr) = json 200 (ItemJson it)" for it
  proof -
    from that have "findItem s idstr = Some it"
      by (simp add: get_inventory_id_def json_def split: option.splits)
    then show ?thesis
      by (auto simp: findItem_def find_Some_iff id_matches_iff)
  qed
  have complete: "snd (get_inventory_id s t) = json 200 (ItemJson it)"
    if d: "distinct (map item_id (inventory s))" and mem: "it \<in> set (inventory s)"
      and p: "parseInt t = Some (item_id it)" for it t
  proof -
    from mem p have "\<exists>i \<in> set (inventory s). id_matches t i"
      by (auto simp: id_matches_iff)
    then obtain it' where f: "findItem s t = Some it'"
      by (cases "findItem s t") (auto simp: findItem_def find_None_iff)
    then have "it' \<in> set (inventory s)" "id_matches t it'"
      by (auto simp: findItem_def find_Some_iff)
    with p have "item_id it' = item_id it"
      by (simp add: id_matches_iff)
    with d mem \<open>it' \<in> set (inventory s)\<close> have "it' = it"
      by (simp add: distinct_map inj_on_def)
    with f show ?thesis by (simp add: get_inventory_id_def)
  qed
  have by_text: "snd (get_inventory_id s (show_int (item_id it))) = json 200 (ItemJson it)"
    if "distinct (map item_id (inventory s))" and "it \<in> set (inventory s)" for it
    using that by (intro complete) (simp_all add: parseInt_show_int)
  show ?thesis
  proof (intro conjI impI allI ballI)
    show "fst (get_inventory_id s idstr) = s" by (rule unchanged)
    show "snd (get_inventory_id s idstr) = json 404 (ErrorJson ''Item not found'')"
      if "parseInt idstr = None" using that by (rule nan)
    show "(status (snd (get_inventory_id s idstr)) = 200) =
        (\<exists>it \<in> set (inventory s). parseInt idstr = Some (item_id it))" by (rule ok_iff)
    show "snd (get_inventory_id s idstr) = json 404 (ErrorJson ''Item not found'')"
      if "status (snd (get_inventory_id s idstr)) \<noteq> 200" using that by (rule other)
    show "it \<in> set (inventory s)"
      if "snd (get_inventory_id s idstr) = json 200 (ItemJson it)" for it
      using sound [OF that] by simp
    show "parseInt idstr = Some (item_id it)"
      if "snd (get_inventory_id s idstr) = json 200 (ItemJson it)" for it
      using sound [OF that] by simp
    show "snd (get_inventory_id s idstr) = json 200 (ItemJson it)"
      if "distinct (map item_id (inventory s))" "it \<in> set (inventory s)"
        "parseInt idstr = Some (item_id it)" for it
      using that by (rule complete)
    show "snd (get_inventory_id s (show_int (item_id it))) = json 200 (ItemJson it)"
      if "distinct (map item_id (inventory s))" "it \<in> set (inventory s)" for it
      using that by (rule by_text)
  qed
qed

theorem get_item_matches_parsed_id_witness:
  "snd (get_inventory_id two_items_store ''abc'') = json 404 (ErrorJson ''Item not found'')
   \<and> snd (get_inventory_id two_items_store ''12abc'') = json 200 (ItemJson (plain_item\<lparr>item_id := 12\<rparr>))
   \<and> snd (get_inventory_id two_items_store ''1'') = json 200 (ItemJson plain_item)"
proof -
  have d: "distinct (map item_id (inventory two_items_store))"
    by (simp add: two_items_store_def plain_item_def)
  have m1: "plain_item \<in> set (inventory two_items_store)"
    and m12: "plain_item\<lparr>item_id := 12\<rparr> \<in> set (inventory two_items_store)"
    by (simp_all add: two_items_store_def)
  have p1: "parseInt ''1'' = Some (item_id plain_item)"
    by (simp add: parseInt_1 plain_item_def)
  have p12: "parseInt ''12abc'' = Some (item_id (plain_item\<lparr>item_id := 12\<rparr>))"
    by (simp add: parseInt_12abc)
  have a: "snd (get_inventory_id two_items_store ''abc'') = json 404 (ErrorJson ''Item not found'')"
    using get_item_matches_parsed_id [of two_items_store "''abc''"] parseInt_abc by blast
  have b: "snd (get_inventory_id two_items_store ''12abc'')
      = json 200 (ItemJson (plain_item\<lparr>item_id := 12\<rparr>))"
    using get_item_matches_parsed_id [of two_items_store "''12abc''"] d m12 p12 by blast
  have c: "snd (get_inventory_id two_items_store ''1'') = json 200 (ItemJson plain_item)"
    using get_item_matches_parsed_id [of two_items_store "''1''"] d m1 p1 by blast
  from a b c show ?thesis by simp
qed


section \<open>Searching\<close>

text \<open>C8: a search that finds an item leaves the store, and so the stored item, as it
  was. With \<open>has_photo\<close> equal to \<open>on\<close> and a photo reference on the item, the returned
  view is the item with a line break, \<open>Photo: \<close> and the item's \<open>photo_url\<close> appended to the
  description; with the flag set and no photo reference, and likewise without the flag,
  the returned view is the stored item, description unchanged.\<close>

theorem search_photo_note_view_only:
  assumes "findItem s (case body_id of None \<Rightarrow> ''undefined'' | Some v \<Rightarrow> v) = Some it"
  shows "fst (post_search s body_id has_photo) = s
     \<and> findItem (fst (post_search s body_id has_photo))
          (case body_id of None \<Rightarrow> ''undefined'' | Some v \<Rightarrow> v) = Some it
     \<and> (has_photo = Some ''on'' \<and> photo it \<noteq> None \<and> photo it \<noteq> Some [] \<longrightarrow>
          snd (post_search s body_id has_photo) =
            json 200 (ItemJson (it\<lparr>description :=
               description it @ [CHR 0x0A] @ ''Photo: ''
                 @ (case photo_url it of None \<Rightarrow> ''null'' | Some u \<Rightarrow> u)\<rparr>)))
     \<and> (photo it = None \<or> photo it = Some [] \<longrightarrow>
          snd (post_search s body_id (Some ''on'')) = json 200 (ItemJson it))
     \<and> (has_photo \<noteq> Some ''on'' \<longrightarrow>
          snd (post_search s body_id has_photo) = json 200 (ItemJson it))"
  using assms by (auto simp: post_search_def photo_note_def Let_def)

theorem search_photo_note_view_only_witness:
  "fst (post_search drill_store (Some ''1'') (Some ''on'')) = drill_store
   \<and> snd (post_search drill_store (Some ''1'') (Some ''on'')) =
       json 200 (ItemJson (drill_item\<lparr>description :=
          [CHR 0x0A] @ ''Photo: /inventory/1/photo''\<rparr>))
   \<and> findItem (fst (post_search drill_store (Some ''1'') (Some ''on''))) ''1'' = Some drill_item
   \<and> snd (post_search plain_store (Some ''1'') (Some ''on'')) = json 200 (ItemJson plain_item)"
proof -
  have f1: "findItem drill_store (case Some ''1'' of None \<Rightarrow> ''undefined'' | Some v \<Rightarrow> v)
      = Some drill_item"
    by (simp add: findItem_drill_store)
  have f2: "findItem plain_store (case Some ''1'' of None \<Rightarrow> ''undefined'' | Some v \<Rightarrow> v)
      = Some plain_item"
    by (simp add: findItem_plain_store)
  have u: "photo_url drill_item = Some ''/inventory/1/photo''" "description drill_item = []"
    by (simp_all add: drill_item_def)
  show ?thesis
    using search_photo_note_view_only [OF f1, of "Some ''on''"]
      search_photo_note_view_only [OF f2, of "Some ''on''"]
    by (simp add: photo_drill_item photo_plain_item u findItem_drill_store)
qed

end
